theory Spec2Isabelle
  imports Main "HOL-Library.Char_ord" "HOL-Library.List_Lexorder" "HOL-Library.Multiset"
begin

section \<open>Driver base classes of terracotta (drivers/base\_classes.py)\<close>

text \<open>
  The module holds one decorator with a body, \<^verbatim>\<open>requires_connection\<close>, and two abstract
  base classes, \<^verbatim>\<open>MetaStore\<close> and \<^verbatim>\<open>RasterStore\<close>. Of the methods of \<^verbatim>\<open>MetaStore\<close>
  only \<^verbatim>\<open>_normalize_path\<close> and \<^verbatim>\<open>__repr__\<close> have a body; every other method is abstract
  and its behaviour is left to the concrete drivers.
\<close>

subsection \<open>Calls, context managers and the abstract \<open>connect\<close>\<close>

text \<open>
  A Python call in a state \<open>'s\<close> either raises an exception \<open>'e\<close> (\<open>Inl\<close>) or returns
  a value (\<open>Inr\<close>), and leaves a new state. A context manager is the pair of its
  \<^verbatim>\<open>__enter__\<close> and \<^verbatim>\<open>__exit__\<close> methods; \<^verbatim>\<open>__exit__\<close> receives the exception in flight
  (or \<open>None\<close>) and answers whether that exception is suppressed.
\<close>

record ('s, 'e) context_manager =
  cm_enter :: "'s \<Rightarrow> ('e + unit) \<times> 's"
  cm_exit :: "'e option \<Rightarrow> 's \<Rightarrow> ('e + bool) \<times> 's"

text \<open>
  \<^verbatim>\<open>MetaStore.connect(self, verify=True)\<close> is abstract: the model takes it as a field
  of the object the wrapped method is called on.
\<close>

record ('s, 'e) metastore =
  connect :: "bool \<Rightarrow> 's \<Rightarrow> ('e + ('s, 'e) context_manager) \<times> 's"

text \<open>What a wrapped call does, in the order it does it.\<close>

datatype ('a, 'e) event =
    EvConnect bool
  | EvEnter
  | EvCall 'a
  | EvExit "'e option"

type_synonym ('s, 'e, 'a, 'r) operation =
  "('s, 'e) metastore \<Rightarrow> 'a \<Rightarrow> 's \<Rightarrow> ('e + 'r) \<times> 's"

type_synonym ('s, 'e, 'a, 'r) wrapped =
  "('s, 'e) metastore \<Rightarrow> 'a \<Rightarrow> 's \<Rightarrow> (('e + 'r option) \<times> 's) \<times> ('a, 'e) event list"

subsection \<open>\<open>requires_connection\<close>\<close>

text \<open>
  \<^verbatim>\<open>
  def inner(self, *args, **kwargs):
      assert fun is not None
      with self.connect(verify=verify):
          return fun(self, *args, **kwargs)
  \<close>
  The \<^verbatim>\<open>with\<close> statement evaluates \<^verbatim>\<open>self.connect(verify=verify)\<close>, calls \<^verbatim>\<open>__enter__\<close>
  on the result, runs the body and then calls \<^verbatim>\<open>__exit__\<close>: with \<open>None\<close> when the body
  returned, with the exception when it raised. An exception of \<^verbatim>\<open>connect\<close> or of
  \<^verbatim>\<open>__enter__\<close> leaves the statement before the body runs, and \<^verbatim>\<open>__exit__\<close> is not
  called. An exception of \<^verbatim>\<open>__exit__\<close> replaces the outcome of the body. When the body
  raised and \<^verbatim>\<open>__exit__\<close> answers true, the exception is suppressed, control falls off
  the end of \<^verbatim>\<open>inner\<close> and the call returns Python's \<open>None\<close>: the result \<open>Inr None\<close>.
  The positional and keyword arguments are one value \<open>args\<close>.
\<close>

definition inner ::
  "('s, 'e, 'a, 'r) operation \<Rightarrow> bool \<Rightarrow> ('s, 'e, 'a, 'r) wrapped" where
  "inner fn verify self args s0 =
     (case connect self verify s0 of
        (Inl e, s1) \<Rightarrow> ((Inl e, s1), [EvConnect verify])
      | (Inr cm, s1) \<Rightarrow>
          (case cm_enter cm s1 of
             (Inl e, s2) \<Rightarrow> ((Inl e, s2), [EvConnect verify, EvEnter])
           | (Inr u, s2) \<Rightarrow>
               (case fn self args s2 of
                  (Inr y, s3) \<Rightarrow>
                    (case cm_exit cm None s3 of
                       (Inl e', s4) \<Rightarrow>
                         ((Inl e', s4), [EvConnect verify, EvEnter, EvCall args, EvExit None])
                     | (Inr b, s4) \<Rightarrow>
                         ((Inr (Some y), s4),
                          [EvConnect verify, EvEnter, EvCall args, EvExit None]))
                | (Inl e, s3) \<Rightarrow>
                    (case cm_exit cm (Some e) s3 of
                       (Inl e', s4) \<Rightarrow>
                         ((Inl e', s4),
                          [EvConnect verify, EvEnter, EvCall args, EvExit (Some e)])
                     | (Inr b, s4) \<Rightarrow>
                         ((if b then Inr None else Inl e, s4),
                          [EvConnect verify, EvEnter, EvCall args, EvExit (Some e)])))))"

text \<open>
  \<^verbatim>\<open>
  def requires_connection(fun=None, *, verify=True):
      if fun is None:
          return functools.partial(requires_connection, verify=verify)
      ...
      return inner
  \<close>
  Both parameters have a default, so each argument is optional: \<open>None\<close> stands for an
  argument the caller left out. The result is either the partial application, which
  remembers \<open>verify\<close>, or the wrapper.
\<close>

datatype ('s, 'e, 'a, 'r) decorated =
    Partial bool
  | Wrapped "('s, 'e, 'a, 'r) wrapped"

definition requires_connection ::
  "('s, 'e, 'a, 'r) operation option \<Rightarrow> bool option \<Rightarrow> ('s, 'e, 'a, 'r) decorated" where
  "requires_connection fn verify_kw =
     (let verify = (case verify_kw of None \<Rightarrow> True | Some v \<Rightarrow> v)
      in case fn of
           None \<Rightarrow> Partial verify
         | Some f \<Rightarrow> Wrapped (inner f verify))"

text \<open>
  Calling \<^verbatim>\<open>functools.partial(requires_connection, verify=stored)\<close>: the stored keyword
  is passed on unless the call gives \<^verbatim>\<open>verify\<close> itself.
\<close>

definition partial_call ::
  "bool \<Rightarrow> ('s, 'e, 'a, 'r) operation option \<Rightarrow> bool option \<Rightarrow> ('s, 'e, 'a, 'r) decorated" where
  "partial_call stored fn verify_kw =
     requires_connection fn (Some (case verify_kw of None \<Rightarrow> stored | Some v \<Rightarrow> v))"

subsection \<open>\<open>MetaStore\<close>: the members with a body\<close>

text \<open>\<^verbatim>\<open>_RESERVED_KEYS = ('limit', 'page')\<close>\<close>

definition RESERVED_KEYS :: "string list" where
  "RESERVED_KEYS = [''limit'', ''page'']"

text \<open>
  \<^verbatim>\<open>
  @classmethod
  def _normalize_path(cls, path: str) -> str:
      return path
  \<close>
  (An Isabelle name cannot start with an underscore.)
\<close>

definition normalize_path :: "'cls \<Rightarrow> string \<Rightarrow> string" where
  "normalize_path cls path = path"

section \<open>The Dataset Catalog, from the specification\<close>

text \<open>
  \<^verbatim>\<open>connect\<close>, \<^verbatim>\<open>get_datasets\<close> and the other catalog operations are abstract in
  \<^verbatim>\<open>MetaStore\<close>; the drivers that implement them are not among the sources. The
  definitions of this section are written from the specification's words.
\<close>

subsection \<open>Errors and the data model\<close>

text \<open>Modelled from the spec: the error taxonomy of section 7 (the exception classes
  are not among the sources).\<close>

datatype error =
    SchemaError
  | KeyMismatchError
  | UnknownKeyError
  | IncompatibleVersionError
  | TileOutOfBoundsError
  | InvalidTileSizeError

text \<open>Modelled from the spec: a Dataset Entry (section 3) is identified by its key-tuple
  and holds a storage locator and a metadata record. The metadata record is a type
  parameter here.\<close>

record 'm dataset_entry =
  locator :: string
  metadata :: 'm

text \<open>Modelled from the spec: the Catalog (section 3) holds the version it was created
  with, the Key Schema (the ordered key names, each with its description) and the
  entries, one per key-tuple.\<close>

record 'm catalog =
  db_version :: string
  key_schema :: "(string \<times> string) list"
  entries :: "(string list \<times> 'm dataset_entry) list"

text \<open>Modelled from the spec: \<^verbatim>\<open>key_names\<close>, an abstract property of \<^verbatim>\<open>MetaStore\<close>
  ("Names of all keys defined by the database"), is the Key Schema's names in the
  order of their definition.\<close>

definition key_names :: "'m catalog \<Rightarrow> string list" where
  "key_names c = map fst (key_schema c)"

text \<open>Modelled from the spec: the invariants of a catalog's entries (section 3). A
  Dataset Entry is "identified by a key-tuple whose length equals the Key Schema's key
  count, values unique per full tuple (the key-tuple is the primary identity)", and a
  Key Schema has no duplicated key name (section 4.1).\<close>

definition wf_catalog :: "'m catalog \<Rightarrow> bool" where
  "wf_catalog c =
     (distinct (key_names c)
      \<and> list_all (\<lambda>ke. length (fst ke) = length (key_names c)) (entries c)
      \<and> distinct (map fst (entries c)))"

subsection \<open>Connection Session\<close>

text \<open>Modelled from the spec: the backing store a driver object works on (section 4.5),
  the catalog it holds and the number of sessions open on it.\<close>

record 'm backing_store =
  stored :: "'m catalog"
  open_sessions :: nat

text \<open>Modelled from the spec: a session (section 4.5) is "released deterministically
  when the caller's scope ends regardless of success or failure" and is re-entrant;
  leaving it never replaces or suppresses the exception in flight.\<close>

definition session :: "('m backing_store, error) context_manager" where
  "session =
     \<lparr>cm_enter = (\<lambda>s. (Inr (), s\<lparr>open_sessions := Suc (open_sessions s)\<rparr>)),
      cm_exit = (\<lambda>exc s. (Inr False, s\<lparr>open_sessions := open_sessions s - 1\<rparr>))\<rparr>"

text \<open>Modelled from the spec: \<^verbatim>\<open>connect(verify)\<close> (section 4.2) "opens a session; if
  \<open>verify\<close> is true, checks \<open>db_version\<close> compatibility and fails fast with an
  \<open>IncompatibleVersionError\<close> otherwise". The compatibility range of the running engine
  is the parameter \<open>compatible\<close>.\<close>

definition catalog_connect ::
  "(string \<Rightarrow> bool) \<Rightarrow> bool \<Rightarrow> 'm backing_store
     \<Rightarrow> (error + ('m backing_store, error) context_manager) \<times> 'm backing_store" where
  "catalog_connect compatible verify s =
     (if verify \<and> \<not> compatible (db_version (stored s))
      then (Inl IncompatibleVersionError, s)
      else (Inr session, s))"

text \<open>Modelled from the spec: a driver object over such a store; its \<^verbatim>\<open>connect\<close> is the
  one above.\<close>

definition catalog_driver :: "(string \<Rightarrow> bool) \<Rightarrow> ('m backing_store, error) metastore" where
  "catalog_driver compatible = \<lparr>connect = catalog_connect compatible\<rparr>"

subsection \<open>\<open>get_datasets\<close>\<close>

text \<open>\<^verbatim>\<open>MultiValueKeysType = Mapping[str, Union[str, List[str]]]\<close>, the type of the
  \<^verbatim>\<open>where\<close> argument: a constraint gives a key name one accepted value or a list of
  them. A filter is the list of its constraints.\<close>

datatype where_value = Single string | Multi "string list"

fun accepted :: "where_value \<Rightarrow> string list" where
  "accepted (Single v) = [v]"
| "accepted (Multi vs) = vs"

text \<open>Modelled from the spec: positions of a key-tuple follow the order of the Key
  Schema (section 4.2, "position maps 1:1 to Key Schema order"), so the value of a
  key-tuple for a key name is found by pairing names and values in order.\<close>

definition key_value :: "string list \<Rightarrow> string list \<Rightarrow> string \<Rightarrow> string option" where
  "key_value names k name = map_of (zip names k) name"

text \<open>Modelled from the spec: a key-tuple satisfies a constraint when its value for the
  constraint's key is one of the accepted values ("logical OR within a key"), and
  matches a filter when it satisfies every constraint ("logical AND across keys").\<close>

definition satisfies :: "string list \<Rightarrow> string list \<Rightarrow> string \<times> where_value \<Rightarrow> bool" where
  "satisfies names k cn =
     (case key_value names k (fst cn) of
        None \<Rightarrow> False
      | Some v \<Rightarrow> v \<in> set (accepted (snd cn)))"

definition matches :: "string list \<Rightarrow> (string \<times> where_value) list \<Rightarrow> string list \<Rightarrow> bool" where
  "matches names wh k = list_all (satisfies names k) wh"

text \<open>Modelled from the spec: the entries matching a filter, as pairs of key-tuple and
  locator, in the canonical ordering by key-tuple (section 4.2).\<close>

definition enumerate_matching ::
  "'m catalog \<Rightarrow> (string \<times> where_value) list \<Rightarrow> (string list \<times> string) list" where
  "enumerate_matching c wh =
     sort_key fst
       (map (\<lambda>ke. (fst ke, locator (snd ke)))
          (filter (\<lambda>ke. matches (key_names c) wh (fst ke)) (entries c)))"

text \<open>Modelled from the spec: the \<^verbatim>\<open>where\<close> argument is optional (\<^verbatim>\<open>where = None\<close> in the
  signature); a call without it constrains nothing.\<close>

definition constraints ::
  "(string \<times> where_value) list option \<Rightarrow> (string \<times> where_value) list" where
  "constraints where' = (case where' of None \<Rightarrow> [] | Some w \<Rightarrow> w)"

text \<open>Modelled from the spec: \<^verbatim>\<open>get_datasets(where?, page=0, limit=None)\<close> (section 4.2)
  "enumerates entries whose key-tuple matches all constraints in \<open>where\<close>";
  "\<open>page\<close>/\<open>limit\<close> apply stable pagination over a canonical ordering (by key-tuple);
  requesting an unknown key name fails with \<open>UnknownKeyError\<close>". A page is \<open>limit\<close>
  consecutive entries of the enumeration, page \<open>p\<close> starting after the first
  \<open>p * limit\<close>; without a limit the whole enumeration is returned. \<open>page\<close> and
  \<open>limit\<close> are counts, so natural numbers.\<close>

definition get_datasets ::
  "'m catalog \<Rightarrow> (string \<times> where_value) list option \<Rightarrow> nat \<Rightarrow> nat option
     \<Rightarrow> error + (string list \<times> string) list" where
  "get_datasets c where' page limit =
     (if list_ex (\<lambda>cn. fst cn \<notin> set (key_names c)) (constraints where')
      then Inl UnknownKeyError
      else Inr (case limit of
                  None \<Rightarrow> enumerate_matching c (constraints where')
                | Some l \<Rightarrow>
                    take l (drop (page * l) (enumerate_matching c (constraints where')))))"

text \<open>Modelled from the spec: \<^verbatim>\<open>get_datasets\<close> as a method of the driver object. It
  reads the catalog of the backing store and leaves the store as it is.\<close>

definition get_datasets_method ::
  "('m backing_store, error,
    (string \<times> where_value) list option \<times> nat \<times> nat option,
    (string list \<times> string) list) operation" where
  "get_datasets_method self args s =
     (get_datasets (stored s) (fst args) (fst (snd args)) (snd (snd args)), s)"

text \<open>Modelled from the spec: the caller of the pagination property (section 8), who
  asks for the pages \<open>0, \<dots>, n - 1\<close> and puts them one after the other; the first
  error ends it.\<close>

fun concat_pages :: "(nat \<Rightarrow> error + 'a list) \<Rightarrow> nat \<Rightarrow> error + 'a list" where
  "concat_pages get 0 = Inr []"
| "concat_pages get (Suc n) =
     (case concat_pages get n of
        Inl e \<Rightarrow> Inl e
      | Inr xs \<Rightarrow> (case get n of Inl e \<Rightarrow> Inl e | Inr ys \<Rightarrow> Inr (xs @ ys)))"

section \<open>Theorems\<close>

text \<open>
  C9. The base path normalisation is the identity: \<open>_normalize_path(p) = p\<close> for every
  path string, so it is idempotent, and two paths have the same normal form exactly
  when they are the same string.
\<close>

theorem normalize_path_identity:
  "normalize_path cls p = p
   \<and> normalize_path cls (normalize_path cls p) = normalize_path cls p
   \<and> (normalize_path cls p = normalize_path cls q) = (p = q)"
  by (simp add: normalize_path_def)

text \<open>
  C10. \<open>requires_connection\<close> verifies by default. Leaving \<open>verify\<close> out is the same as
  passing \<open>verify=True\<close>; applying the decorator with the keyword alone and then to
  \<open>f\<close> is the same as applying it to \<open>f\<close> with that keyword; the wrapper built for any
  keyword works with the flag \<open>b\<close> that is true unless the keyword was given as false.
  A call of the wrapper with flag \<open>b\<close> opens its connection with \<open>self.connect(verify=b)\<close>
  and with nothing else: when that call raises, the wrapped call raises the same
  exception in the state \<open>connect\<close> left and the operation is not run; when it returns a
  context manager, it is this context manager that is entered, in the state \<open>connect\<close>
  left, and left again around the operation. So a wrapper built without the keyword
  fails wherever \<open>connect(verify=True)\<close> fails.
\<close>

theorem requires_connection_verifies_by_default:
  "requires_connection (Some f) None = requires_connection (Some f) (Some True)
   \<and> requires_connection None (Some v) = Partial v
   \<and> partial_call v (Some f) None = requires_connection (Some f) (Some v)
   \<and> requires_connection (Some f) kw = Wrapped (inner f (kw \<noteq> Some False))
   \<and> hd (snd (inner f b self args s)) = EvConnect b
   \<and> (\<forall>e s1. connect self b s = (Inl e, s1) \<longrightarrow>
          inner f b self args s = ((Inl e, s1), [EvConnect b]))
   \<and> (\<forall>cm s1 e s2. connect self b s = (Inr cm, s1) \<longrightarrow> cm_enter cm s1 = (Inl e, s2) \<longrightarrow>
          inner f b self args s = ((Inl e, s2), [EvConnect b, EvEnter]))
   \<and> (\<forall>cm s1 u s2 r s3 x s4.
          connect self b s = (Inr cm, s1) \<longrightarrow> cm_enter cm s1 = (Inr u, s2) \<longrightarrow>
          f self args s2 = (r, s3) \<longrightarrow>
          cm_exit cm (case r of Inl e \<Rightarrow> Some e | Inr y \<Rightarrow> None) s3 = (x, s4) \<longrightarrow>
          inner f b self args s =
            ((case x of
                Inl e' \<Rightarrow> Inl e'
              | Inr suppress \<Rightarrow>
                  (case r of
                     Inr y \<Rightarrow> Inr (Some y)
                   | Inl e \<Rightarrow> if suppress then Inr None else Inl e),
              s4),
             [EvConnect b, EvEnter, EvCall args,
              EvExit (case r of Inl e \<Rightarrow> Some e | Inr y \<Rightarrow> None)]))"
proof -
  have dflt: "requires_connection (Some f) None = requires_connection (Some f) (Some True)"
    by (simp add: requires_connection_def)
  have part: "requires_connection None (Some v) = Partial v"
    by (simp add: requires_connection_def)
  have call: "partial_call v (Some f) None = requires_connection (Some f) (Some v)"
    by (simp add: partial_call_def)
  have flag: "requires_connection (Some f) kw = Wrapped (inner f (kw \<noteq> Some False))"
    by (cases kw) (auto simp: requires_connection_def)
  have first: "hd (snd (inner f b self args s)) = EvConnect b"
    by (auto simp: inner_def split: prod.splits sum.splits)
  have refused: "\<forall>e s1. connect self b s = (Inl e, s1) \<longrightarrow>
      inner f b self args s = ((Inl e, s1), [EvConnect b])"
    by (simp add: inner_def)
  have unentered: "\<forall>cm s1 e s2.
      connect self b s = (Inr cm, s1) \<longrightarrow> cm_enter cm s1 = (Inl e, s2) \<longrightarrow>
      inner f b self args s = ((Inl e, s2), [EvConnect b, EvEnter])"
    by (simp add: inner_def)
  have entered: "\<forall>cm s1 u s2 r s3 x s4.
      connect self b s = (Inr cm, s1) \<longrightarrow> cm_enter cm s1 = (Inr u, s2) \<longrightarrow>
      f self args s2 = (r, s3) \<longrightarrow>
      cm_exit cm (case r of Inl e \<Rightarrow> Some e | Inr y \<Rightarrow> None) s3 = (x, s4) \<longrightarrow>
      inner f b self args s =
        ((case x of
            Inl e' \<Rightarrow> Inl e'
          | Inr suppress \<Rightarrow>
              (case r of
                 Inr y \<Rightarrow> Inr (Some y)
               | Inl e \<Rightarrow> if suppress then Inr None else Inl e),
          s4),
         [EvConnect b, EvEnter, EvCall args,
          EvExit (case r of Inl e \<Rightarrow> Some e | Inr y \<Rightarrow> None)])"
  proof (intro allI impI)
    fix cm s1 u s2 r s3 x s4
    assume conn: "connect self b s = (Inr cm, s1)"
      and ent: "cm_enter cm s1 = (Inr u, s2)"
      and body: "f self args s2 = (r, s3)"
      and ex: "cm_exit cm (case r of Inl e \<Rightarrow> Some e | Inr y \<Rightarrow> None) s3 = (x, s4)"
    show "inner f b self args s =
        ((case x of
            Inl e' \<Rightarrow> Inl e'
          | Inr suppress \<Rightarrow>
              (case r of
                 Inr y \<Rightarrow> Inr (Some y)
               | Inl e \<Rightarrow> if suppress then Inr None else Inl e),
          s4),
         [EvConnect b, EvEnter, EvCall args,
          EvExit (case r of Inl e \<Rightarrow> Some e | Inr y \<Rightarrow> None)])"
    proof (cases r)
      case (Inl e)
      with conn ent body ex show ?thesis
        by (cases x) (simp_all add: inner_def)
    next
      case (Inr y)
      with conn ent body ex show ?thesis
        by (cases x) (simp_all add: inner_def)
    qed
  qed
  from dflt part call flag first refused unentered entered show ?thesis
    by (intro conjI)
qed

text \<open>
  The theorem at a store whose catalog has the incompatible version \<open>0.1\<close>. The wrapper
  built without the keyword is the one with flag true; \<open>connect(verify=True)\<close> raises
  on this store, and so does the wrapped \<open>get_datasets\<close>, without running the
  enumeration. The wrapper built with \<open>verify=False\<close> is the one with flag false;
  \<open>connect(verify=False)\<close> opens a session on the same store and the wrapped call
  returns the enumeration.
\<close>

theorem requires_connection_verifies_by_default_witness:
  "requires_connection (Some get_datasets_method) None
     = (Wrapped (inner get_datasets_method True)
        :: (unit backing_store, error,
            (string \<times> where_value) list option \<times> nat \<times> nat option,
            (string list \<times> string) list) decorated)
   \<and> connect (catalog_driver (\<lambda>v. v = ''0.8'')) True
        \<lparr>stored = \<lparr>db_version = ''0.1'', key_schema = [(''sensor'', '''')],
                    entries = [([''A''], \<lparr>locator = ''a.tif'', metadata = ()\<rparr>)]\<rparr>,
         open_sessions = 0\<rparr>
     = (Inl IncompatibleVersionError,
        \<lparr>stored = \<lparr>db_version = ''0.1'', key_schema = [(''sensor'', '''')],
                    entries = [([''A''], \<lparr>locator = ''a.tif'', metadata = ()\<rparr>)]\<rparr>,
         open_sessions = 0\<rparr>)
   \<and> inner get_datasets_method True (catalog_driver (\<lambda>v. v = ''0.8'')) (None, 0, None)
        \<lparr>stored = \<lparr>db_version = ''0.1'', key_schema = [(''sensor'', '''')],
                    entries = [([''A''], \<lparr>locator = ''a.tif'', metadata = ()\<rparr>)]\<rparr>,
         open_sessions = 0\<rparr>
     = ((Inl IncompatibleVersionError,
         \<lparr>stored = \<lparr>db_version = ''0.1'', key_schema = [(''sensor'', '''')],
                     entries = [([''A''], \<lparr>locator = ''a.tif'', metadata = ()\<rparr>)]\<rparr>,
          open_sessions = 0\<rparr>),
        [EvConnect True])
   \<and> requires_connection (Some get_datasets_method) (Some False)
     = (Wrapped (inner get_datasets_method False)
        :: (unit backing_store, error,
            (string \<times> where_value) list option \<times> nat \<times> nat option,
            (string list \<times> string) list) decorated)
   \<and> inner get_datasets_method False (catalog_driver (\<lambda>v. v = ''0.8'')) (None, 0, None)
        \<lparr>stored = \<lparr>db_version = ''0.1'', key_schema = [(''sensor'', '''')],
                    entries = [([''A''], \<lparr>locator = ''a.tif'', metadata = ()\<rparr>)]\<rparr>,
         open_sessions = 0\<rparr>
     = ((Inr (Some [([''A''], ''a.tif'')]),
         \<lparr>stored = \<lparr>db_version = ''0.1'', key_schema = [(''sensor'', '''')],
                     entries = [([''A''], \<lparr>locator = ''a.tif'', metadata = ()\<rparr>)]\<rparr>,
          open_sessions = 0\<rparr>),
        [EvConnect False, EvEnter, EvCall (None, 0, None), EvExit None])"
proof -
  let ?c = "\<lparr>db_version = ''0.1'', key_schema = [(''sensor'', '''')],
             entries = [([''A''], \<lparr>locator = ''a.tif'', metadata = ()\<rparr>)]\<rparr>"
  let ?d = "catalog_driver (\<lambda>v. v = ''0.8'') :: (unit backing_store, error) metastore"
  let ?s0 = "\<lparr>stored = ?c, open_sessions = 0\<rparr>"
  let ?s1 = "\<lparr>stored = ?c, open_sessions = Suc 0\<rparr>"
  let ?args = "(None, 0, None) :: (string \<times> where_value) list option \<times> nat \<times> nat option"
  let ?found = "Inr [([''A''], ''a.tif'')] :: error + (string list \<times> string) list"
  note verifying = requires_connection_verifies_by_default
    [where f = get_datasets_method and self = ?d and args = ?args and s = ?s0
       and b = True and kw = None]
  note unverified = requires_connection_verifies_by_default
    [where f = get_datasets_method and self = ?d and args = ?args and s = ?s0
       and b = False and kw = "Some False"]
  have refuse: "connect ?d True ?s0 = (Inl IncompatibleVersionError, ?s0)"
    by (simp add: catalog_driver_def catalog_connect_def)
  have conn: "connect ?d False ?s0 = (Inr session, ?s0)"
    by (simp add: catalog_driver_def catalog_connect_def)
  have ent: "cm_enter session ?s0 = (Inr (), ?s1)"
    by (simp add: session_def)
  have body: "get_datasets_method ?d ?args ?s1 = (?found, ?s1)"
    by (simp add: get_datasets_method_def get_datasets_def constraints_def
        enumerate_matching_def matches_def key_names_def)
  have ex: "cm_exit session (case ?found of Inl e \<Rightarrow> Some e | Inr y \<Rightarrow> None) ?s1
            = (Inr False, ?s0)"
    by (simp add: session_def)
  note flag_default = verifying [THEN conjunct2, THEN conjunct2, THEN conjunct2, THEN conjunct1]
  note refused = verifying [THEN conjunct2, THEN conjunct2, THEN conjunct2, THEN conjunct2,
    THEN conjunct2, THEN conjunct1]
  note flag_off = unverified [THEN conjunct2, THEN conjunct2, THEN conjunct2, THEN conjunct1]
  note entered = unverified [THEN conjunct2, THEN conjunct2, THEN conjunct2, THEN conjunct2,
    THEN conjunct2, THEN conjunct2, THEN conjunct2]
  from flag_default
  have dflt: "requires_connection (Some get_datasets_method) None
      = (Wrapped (inner get_datasets_method True)
         :: (unit backing_store, error,
             (string \<times> where_value) list option \<times> nat \<times> nat option,
             (string list \<times> string) list) decorated)"
    by simp
  from refused refuse
  have raised: "inner get_datasets_method True ?d ?args ?s0
      = ((Inl IncompatibleVersionError, ?s0), [EvConnect True])"
    by blast
  from flag_off
  have off: "requires_connection (Some get_datasets_method) (Some False)
      = (Wrapped (inner get_datasets_method False)
         :: (unit backing_store, error,
             (string \<times> where_value) list option \<times> nat \<times> nat option,
             (string list \<times> string) list) decorated)"
    by simp
  from entered conn ent body ex
  have "inner get_datasets_method False ?d ?args ?s0
      = ((case (Inr False :: error + bool) of
            Inl e' \<Rightarrow> Inl e'
          | Inr suppress \<Rightarrow>
              (case ?found of
                 Inr y \<Rightarrow> Inr (Some y)
               | Inl e \<Rightarrow> if suppress then Inr None else Inl e),
          ?s0),
         [EvConnect False, EvEnter, EvCall ?args,
          EvExit (case ?found of Inl e \<Rightarrow> Some e | Inr y \<Rightarrow> None)])"
    by blast
  then have returned: "inner get_datasets_method False ?d ?args ?s0
      = ((Inr (Some [([''A''], ''a.tif'')]), ?s0),
         [EvConnect False, EvEnter, EvCall ?args, EvExit None])"
    by simp
  from dflt refuse raised off returned show ?thesis
    by (intro conjI)
qed

text \<open>
  C1, as amended. Whenever \<open>self.connect(verify=verify)\<close> returns a context manager and
  its \<open>__enter__\<close> succeeds, a call of the wrapper runs the underlying operation once,
  after \<open>__enter__\<close> and before \<open>__exit__\<close>, in the state \<open>__enter__\<close> left, and calls
  \<open>__exit__\<close> in the state the operation left, with \<open>None\<close> when the operation returned
  and with its exception when it raised. When \<open>__exit__\<close> does not raise, the wrapped
  call returns exactly the value the operation returned, and an exception of the
  operation propagates unless \<open>__exit__\<close> suppresses it; an exception of \<open>__exit__\<close>
  replaces either outcome.
\<close>

theorem requires_connection_runs_in_context:
  assumes conn: "connect self verify s0 = (Inr cm, s1)"
    and ent: "cm_enter cm s1 = (Inr u, s2)"
    and body: "fn self args s2 = (r, s3)"
    and ex: "cm_exit cm (case r of Inl e \<Rightarrow> Some e | Inr y \<Rightarrow> None) s3 = (x, s4)"
  shows "requires_connection (Some fn) (Some verify) = Wrapped (inner fn verify)
    \<and> snd (inner fn verify self args s0) =
        [EvConnect verify, EvEnter, EvCall args,
         EvExit (case r of Inl e \<Rightarrow> Some e | Inr y \<Rightarrow> None)]
    \<and> snd (fst (inner fn verify self args s0)) = s4
    \<and> fst (fst (inner fn verify self args s0)) =
        (case x of
           Inl e' \<Rightarrow> Inl e'
         | Inr suppress \<Rightarrow>
             (case r of
                Inr y \<Rightarrow> Inr (Some y)
              | Inl e \<Rightarrow> if suppress then Inr None else Inl e))"
proof -
  have deco: "requires_connection (Some fn) (Some verify) = Wrapped (inner fn verify)"
    by (simp add: requires_connection_def)
  show ?thesis
  proof (cases r)
    case (Inl e)
    with conn ent body ex deco show ?thesis
      by (cases x) (simp_all add: inner_def)
  next
    case (Inr y)
    with conn ent body ex deco show ?thesis
      by (cases x) (simp_all add: inner_def)
  qed
qed

text \<open>
  The theorem at a concrete call: \<open>get_datasets\<close> wrapped with verification, on a store
  whose catalog has a compatible version. The session is opened, the enumeration runs
  inside it, the session is closed again and the enumeration is what the call returns.
\<close>

theorem requires_connection_runs_in_context_witness:
  "connect (catalog_driver (\<lambda>v. v = ''0.8'')) True
      \<lparr>stored = \<lparr>db_version = ''0.8'', key_schema = [(''sensor'', '''')],
                  entries = [([''A''], \<lparr>locator = ''a.tif'', metadata = ()\<rparr>)]\<rparr>,
       open_sessions = 0\<rparr>
     = (Inr session,
        \<lparr>stored = \<lparr>db_version = ''0.8'', key_schema = [(''sensor'', '''')],
                    entries = [([''A''], \<lparr>locator = ''a.tif'', metadata = ()\<rparr>)]\<rparr>,
         open_sessions = 0\<rparr>)
   \<and> inner get_datasets_method True (catalog_driver (\<lambda>v. v = ''0.8'')) (None, 0, None)
        \<lparr>stored = \<lparr>db_version = ''0.8'', key_schema = [(''sensor'', '''')],
                    entries = [([''A''], \<lparr>locator = ''a.tif'', metadata = ()\<rparr>)]\<rparr>,
         open_sessions = 0\<rparr>
     = ((Inr (Some [([''A''], ''a.tif'')]),
         \<lparr>stored = \<lparr>db_version = ''0.8'', key_schema = [(''sensor'', '''')],
                     entries = [([''A''], \<lparr>locator = ''a.tif'', metadata = ()\<rparr>)]\<rparr>,
          open_sessions = 0\<rparr>),
        [EvConnect True, EvEnter, EvCall (None, 0, None), EvExit None])"
proof -
  let ?c = "\<lparr>db_version = ''0.8'', key_schema = [(''sensor'', '''')],
             entries = [([''A''], \<lparr>locator = ''a.tif'', metadata = ()\<rparr>)]\<rparr>"
  let ?d = "catalog_driver (\<lambda>v. v = ''0.8'') :: (unit backing_store, error) metastore"
  let ?s0 = "\<lparr>stored = ?c, open_sessions = 0\<rparr>"
  let ?s1 = "\<lparr>stored = ?c, open_sessions = Suc 0\<rparr>"
  let ?args = "(None, 0, None) :: (string \<times> where_value) list option \<times> nat \<times> nat option"
  have conn: "connect ?d True ?s0 = (Inr session, ?s0)"
    by (simp add: catalog_driver_def catalog_connect_def)
  have ent: "cm_enter session ?s0 = (Inr (), ?s1)"
    by (simp add: session_def)
  have body: "get_datasets_method ?d ?args ?s1 = (Inr [([''A''], ''a.tif'')], ?s1)"
    by (simp add: get_datasets_method_def get_datasets_def constraints_def
        enumerate_matching_def matches_def key_names_def)
  have ex: "cm_exit session
              (case (Inr [([''A''], ''a.tif'')] :: error + (string list \<times> string) list) of
                 Inl e \<Rightarrow> Some e | Inr y \<Rightarrow> None) ?s1
            = (Inr False, ?s0)"
    by (simp add: session_def)
  from requires_connection_runs_in_context
         [where fn = get_datasets_method and self = ?d and args = ?args, OF conn ent body ex]
       conn
  show ?thesis
    by (simp add: prod_eq_iff)
qed

text \<open>
  C1 as stated fails where no connection context is obtained or where leaving it
  fails. On a store whose catalog version is incompatible, \<open>connect(verify=True)\<close>
  raises: the wrapped \<open>get_datasets\<close> raises \<open>IncompatibleVersionError\<close> and the
  underlying operation, which would have returned the enumeration, is never run. With
  a context manager whose \<open>__exit__\<close> raises, the operation returns \<open>5\<close> and the wrapped
  call raises instead of returning it.
\<close>

theorem requires_connection_counterexample:
  "fst (get_datasets_method (catalog_driver (\<lambda>v. v = ''0.8'')) (None, 0, None)
         \<lparr>stored = \<lparr>db_version = ''0.1'', key_schema = [(''sensor'', '''')],
                     entries = [([''A''], \<lparr>locator = ''a.tif'', metadata = ()\<rparr>)]\<rparr>,
          open_sessions = 0\<rparr>)
     = Inr [([''A''], ''a.tif'')]
   \<and> inner get_datasets_method True (catalog_driver (\<lambda>v. v = ''0.8'')) (None, 0, None)
         \<lparr>stored = \<lparr>db_version = ''0.1'', key_schema = [(''sensor'', '''')],
                     entries = [([''A''], \<lparr>locator = ''a.tif'', metadata = ()\<rparr>)]\<rparr>,
          open_sessions = 0\<rparr>
     = ((Inl IncompatibleVersionError,
         \<lparr>stored = \<lparr>db_version = ''0.1'', key_schema = [(''sensor'', '''')],
                     entries = [([''A''], \<lparr>locator = ''a.tif'', metadata = ()\<rparr>)]\<rparr>,
          open_sessions = 0\<rparr>),
        [EvConnect True])
   \<and> inner (\<lambda>self args s. (Inr (5 :: nat), s)) True
         \<lparr>connect = (\<lambda>verify s.
            (Inr \<lparr>cm_enter = (\<lambda>s. (Inr (), s)),
                  cm_exit = (\<lambda>exc s. (Inl ''commit failed'', s))\<rparr>, s))\<rparr>
         () ()
     = ((Inl ''commit failed'', ()),
        [EvConnect True, EvEnter, EvCall (), EvExit None])"
  by (simp add: inner_def catalog_driver_def catalog_connect_def get_datasets_method_def
      get_datasets_def constraints_def enumerate_matching_def matches_def key_names_def)

subsection \<open>Enumeration, pagination and filtering\<close>

lemma concat_pages_take:
  "concat_pages (\<lambda>p. Inr (take l (drop (p * l) xs))) n = Inr (take (n * l) xs)"
proof (induction n)
  case 0
  show ?case by simp
next
  case (Suc n)
  have "take (n * l) xs @ take l (drop (n * l) xs) = take (n * l + l) xs"
    by (simp add: take_add)
  with Suc show ?case by (simp add: add.commute)
qed

lemma pages_cover:
  assumes "1 \<le> (l::nat)" and "m \<le> N"
  shows "m \<le> ((N + l - 1) div l) * l"
proof -
  have "(N + l - 1) mod l < l" using assms by simp
  moreover have "((N + l - 1) div l) * l + (N + l - 1) mod l = N + l - 1"
    by simp
  ultimately show ?thesis using assms by linarith
qed

lemma set_enumerate_matching:
  "set (enumerate_matching c wh) =
     {(k, locator e) | k e. (k, e) \<in> set (entries c) \<and> matches (key_names c) wh k}"
  by (force simp: enumerate_matching_def)

lemma sorted_enumerate_matching: "sorted (map fst (enumerate_matching c wh))"
  by (simp add: enumerate_matching_def)

lemma distinct_enumerate_matching:
  assumes "wf_catalog c"
  shows "distinct (map fst (enumerate_matching c wh))"
proof -
  let ?found = "filter (\<lambda>ke. matches (key_names c) wh (fst ke)) (entries c)"
  let ?pairs = "map (\<lambda>ke. (fst ke, locator (snd ke))) ?found"
  from assms have "distinct (map fst (entries c))" by (simp add: wf_catalog_def)
  then have "distinct (map fst ?found)" by (rule distinct_map_filter)
  moreover have "map fst ?pairs = map fst ?found" by (simp add: comp_def)
  ultimately have "distinct (map fst ?pairs)" by (simp only:)
  then have "distinct (map fst (sort_key fst ?pairs))"
    by (simp only: distinct_map distinct_sort set_sort)
  then show ?thesis by (simp only: enumerate_matching_def)
qed

lemma length_enumerate_matching:
  "length (enumerate_matching c wh) =
     length (filter (\<lambda>ke. matches (key_names c) wh (fst ke)) (entries c))"
  by (simp add: enumerate_matching_def)


lemma get_datasets_known:
  assumes "\<forall>cn \<in> set (constraints where'). fst cn \<in> set (key_names c)"
  shows "get_datasets c where' page limit =
     Inr (case limit of
            None \<Rightarrow> enumerate_matching c (constraints where')
          | Some l \<Rightarrow> take l (drop (page * l) (enumerate_matching c (constraints where'))))"
  using assms by (simp add: get_datasets_def list_ex_iff)

text \<open>
  C3. For a catalog of \<open>N\<close> entries, a filter whose key names the schema knows and a
  limit of at least one, the pages \<open>0\<close> to \<open>ceil(N / limit) - 1\<close> of \<open>get_datasets\<close>,
  one after the other, are the whole enumeration: the matching entries and no others,
  as many as there are matching entries, with no key-tuple twice, in ascending order of
  the key-tuple.
\<close>

theorem get_datasets_pagination:
  assumes wf: "wf_catalog c" and lim: "1 \<le> limit"
    and known: "\<forall>cn \<in> set (constraints where'). fst cn \<in> set (key_names c)"
  shows "\<exists>ds. get_datasets c where' 0 None = Inr ds
      \<and> concat_pages (\<lambda>p. get_datasets c where' p (Some limit))
            ((length (entries c) + limit - 1) div limit) = Inr ds
      \<and> sorted (map fst ds) \<and> distinct (map fst ds)
      \<and> length ds =
          length (filter (\<lambda>ke. matches (key_names c) (constraints where') (fst ke)) (entries c))
      \<and> set ds = {(k, locator e) | k e.
            (k, e) \<in> set (entries c) \<and> matches (key_names c) (constraints where') k}"
proof -
  let ?ds = "enumerate_matching c (constraints where')"
  let ?n = "(length (entries c) + limit - 1) div limit"
  have all: "get_datasets c where' 0 None = Inr ?ds"
    using known by (simp add: get_datasets_known)
  have page: "get_datasets c where' p (Some limit) = Inr (take limit (drop (p * limit) ?ds))" for p
    using known by (simp add: get_datasets_known)
  have "length ?ds \<le> length (entries c)"
    by (simp add: length_enumerate_matching)
  with lim have "length ?ds \<le> ?n * limit" by (rule pages_cover)
  then have "take (?n * limit) ?ds = ?ds" by simp
  with concat_pages_take [of limit ?ds ?n] page
  have pages: "concat_pages (\<lambda>p. get_datasets c where' p (Some limit)) ?n = Inr ?ds"
    by simp
  from all pages sorted_enumerate_matching [of c "constraints where'"]
    distinct_enumerate_matching [OF wf, of "constraints where'"]
    length_enumerate_matching [of c "constraints where'"]
    set_enumerate_matching [of c "constraints where'"]
  show ?thesis by blast
qed

text \<open>
  The pagination theorem at a concrete catalog of four entries, with the filter
  \<open>sensor\<close> in \<open>{A, B}\<close> and two entries to a page: the two pages together are the three
  matching entries, in key order.
\<close>

theorem get_datasets_pagination_witness:
  "wf_catalog
     \<lparr>db_version = ''0.8'', key_schema = [(''sensor'', ''''), (''date'', ''day'')],
      entries = [([''B'', ''2020''], \<lparr>locator = ''b.tif'', metadata = ()\<rparr>),
                 ([''C'', ''2020''], \<lparr>locator = ''c.tif'', metadata = ()\<rparr>),
                 ([''A'', ''2021''], \<lparr>locator = ''a21.tif'', metadata = ()\<rparr>),
                 ([''A'', ''2020''], \<lparr>locator = ''a20.tif'', metadata = ()\<rparr>)]\<rparr>
   \<and> concat_pages
        (\<lambda>p. get_datasets
           \<lparr>db_version = ''0.8'', key_schema = [(''sensor'', ''''), (''date'', ''day'')],
            entries = [([''B'', ''2020''], \<lparr>locator = ''b.tif'', metadata = ()\<rparr>),
                       ([''C'', ''2020''], \<lparr>locator = ''c.tif'', metadata = ()\<rparr>),
                       ([''A'', ''2021''], \<lparr>locator = ''a21.tif'', metadata = ()\<rparr>),
                       ([''A'', ''2020''], \<lparr>locator = ''a20.tif'', metadata = ()\<rparr>)]\<rparr>
           (Some [(''sensor'', Multi [''A'', ''B''])]) p (Some 2))
        ((4 + 2 - 1) div 2)
     = Inr [([''A'', ''2020''], ''a20.tif''), ([''A'', ''2021''], ''a21.tif''),
            ([''B'', ''2020''], ''b.tif'')]"
proof -
  let ?c = "\<lparr>db_version = ''0.8'', key_schema = [(''sensor'', ''''), (''date'', ''day'')],
      entries = [([''B'', ''2020''], \<lparr>locator = ''b.tif'', metadata = ()\<rparr>),
                 ([''C'', ''2020''], \<lparr>locator = ''c.tif'', metadata = ()\<rparr>),
                 ([''A'', ''2021''], \<lparr>locator = ''a21.tif'', metadata = ()\<rparr>),
                 ([''A'', ''2020''], \<lparr>locator = ''a20.tif'', metadata = ()\<rparr>)]\<rparr>"
  let ?w = "Some [(''sensor'', Multi [''A'', ''B''])]"
  have wf: "wf_catalog ?c"
    by (simp add: wf_catalog_def key_names_def)
  have lim: "1 \<le> (2::nat)" by simp
  have known: "\<forall>cn \<in> set (constraints ?w). fst cn \<in> set (key_names ?c)"
    by (simp add: constraints_def key_names_def)
  have all: "get_datasets ?c ?w 0 None
      = Inr [([''A'', ''2020''], ''a20.tif''), ([''A'', ''2021''], ''a21.tif''),
             ([''B'', ''2020''], ''b.tif'')]"
    by (simp add: get_datasets_def constraints_def enumerate_matching_def matches_def
        satisfies_def key_value_def key_names_def)
  have pages: "(length (entries ?c) + 2 - 1) div 2 = (4 + 2 - 1) div 2"
    by simp
  from get_datasets_pagination [OF wf lim known]
  obtain ds where whole: "get_datasets ?c ?w 0 None = Inr ds"
    and paged: "concat_pages (\<lambda>p. get_datasets ?c ?w p (Some 2))
                  ((length (entries ?c) + 2 - 1) div 2) = Inr ds"
    by blast
  from whole all have "ds = [([''A'', ''2020''], ''a20.tif''), ([''A'', ''2021''], ''a21.tif''),
                            ([''B'', ''2020''], ''b.tif'')]"
    by (simp only: sum.inject)
  with paged pages wf show ?thesis
    by (simp only:)
qed

lemma key_value_nth:
  assumes "distinct names" and "length k = length names"
  shows "(key_value names k name = Some v) = (\<exists>i<length names. names ! i = name \<and> k ! i = v)"
proof
  assume "key_value names k name = Some v"
  then have "(name, v) \<in> set (zip names k)"
    by (simp add: key_value_def map_of_SomeD)
  then obtain i where "i < length (zip names k)" and "zip names k ! i = (name, v)"
    by (auto simp: in_set_conv_nth)
  with assms show "\<exists>i<length names. names ! i = name \<and> k ! i = v"
    by auto
next
  assume "\<exists>i<length names. names ! i = name \<and> k ! i = v"
  then obtain i where "i < length names" and "names ! i = name" and "k ! i = v" by blast
  with assms map_of_zip_nth [of names k i] show "key_value names k name = Some v"
    by (simp add: key_value_def)
qed

lemma satisfies_nth:
  assumes "distinct names" and "length k = length names"
  shows "satisfies names k cn =
     (\<exists>i<length names. names ! i = fst cn \<and> k ! i \<in> set (accepted (snd cn)))"
proof -
  have "satisfies names k cn =
      (\<exists>v. key_value names k (fst cn) = Some v \<and> v \<in> set (accepted (snd cn)))"
    by (simp add: satisfies_def split: option.splits)
  also have "\<dots> = (\<exists>v. (\<exists>i<length names. names ! i = fst cn \<and> k ! i = v)
                        \<and> v \<in> set (accepted (snd cn)))"
    by (simp only: key_value_nth [OF assms])
  also have "\<dots> = (\<exists>i<length names. names ! i = fst cn \<and> k ! i \<in> set (accepted (snd cn)))"
    by blast
  finally show ?thesis .
qed

lemma matches_nth:
  assumes "distinct names" and "length k = length names"
  shows "matches names wh k =
     (\<forall>cn\<in>set wh. \<exists>i<length names. names ! i = fst cn \<and> k ! i \<in> set (accepted (snd cn)))"
  by (simp add: matches_def list_all_iff satisfies_nth [OF assms])

lemma matches_append: "matches names (wh @ wh') k = (matches names wh k \<and> matches names wh' k)"
  by (simp add: matches_def)

lemma matches_multi:
  "matches names [(name, Multi [a, b])] k =
     (matches names [(name, Single a)] k \<or> matches names [(name, Single b)] k)"
  by (auto simp: matches_def satisfies_def split: option.splits)

text \<open>
  C8. For a filter whose key names the schema knows, \<open>get_datasets\<close> returns exactly
  the entries whose key-tuple has, for every constrained key, one of the values accepted
  for that key. A constraint with two accepted values gives the union of the results
  for each value alone, and two filters together give the intersection of their
  results.
\<close>

theorem get_datasets_filtering:
  assumes wf: "wf_catalog c"
    and known: "\<forall>cn \<in> set wh. fst cn \<in> set (key_names c)"
  shows "get_datasets c (Some wh) page None = Inr (enumerate_matching c wh)
    \<and> set (enumerate_matching c wh) =
        {(k, locator e) | k e. (k, e) \<in> set (entries c)
           \<and> (\<forall>cn\<in>set wh. \<exists>i<length (key_names c).
                 key_names c ! i = fst cn \<and> k ! i \<in> set (accepted (snd cn)))}
    \<and> set (enumerate_matching c [(name, Multi [a, b])]) =
        set (enumerate_matching c [(name, Single a)])
        \<union> set (enumerate_matching c [(name, Single b)])
    \<and> set (enumerate_matching c (wh @ wh')) =
        set (enumerate_matching c wh) \<inter> set (enumerate_matching c wh')"
proof -
  have ret: "get_datasets c (Some wh) page None = Inr (enumerate_matching c wh)"
    using known by (simp add: get_datasets_known constraints_def)
  have tuple: "matches (key_names c) wh k =
      (\<forall>cn\<in>set wh. \<exists>i<length (key_names c).
          key_names c ! i = fst cn \<and> k ! i \<in> set (accepted (snd cn)))"
    if "(k, e) \<in> set (entries c)" for k e
  proof -
    from wf that have "distinct (key_names c)" and "length k = length (key_names c)"
      by (auto simp: wf_catalog_def list_all_iff)
    then show ?thesis by (rule matches_nth)
  qed
  have exact: "set (enumerate_matching c wh) =
        {(k, locator e) | k e. (k, e) \<in> set (entries c)
           \<and> (\<forall>cn\<in>set wh. \<exists>i<length (key_names c).
                 key_names c ! i = fst cn \<and> k ! i \<in> set (accepted (snd cn)))}"
    unfolding set_enumerate_matching using tuple by blast
  have disj: "set (enumerate_matching c [(name, Multi [a, b])]) =
        set (enumerate_matching c [(name, Single a)])
        \<union> set (enumerate_matching c [(name, Single b)])"
    unfolding set_enumerate_matching matches_multi by blast
  have conj: "set (enumerate_matching c (wh @ wh')) =
        set (enumerate_matching c wh) \<inter> set (enumerate_matching c wh')"
    unfolding set_enumerate_matching matches_append by blast
  from ret exact disj conj show ?thesis by blast
qed

text \<open>
  The filtering theorem at a concrete catalog of four entries, with \<open>sensor\<close> in \<open>{A, B}\<close> and \<open>date\<close>
  equal to \<open>2020\<close>.
\<close>

theorem get_datasets_filtering_witness:
  "wf_catalog
     \<lparr>db_version = ''0.8'', key_schema = [(''sensor'', ''''), (''date'', ''day'')],
      entries = [([''B'', ''2020''], \<lparr>locator = ''b.tif'', metadata = ()\<rparr>),
                 ([''C'', ''2020''], \<lparr>locator = ''c.tif'', metadata = ()\<rparr>),
                 ([''A'', ''2021''], \<lparr>locator = ''a21.tif'', metadata = ()\<rparr>),
                 ([''A'', ''2020''], \<lparr>locator = ''a20.tif'', metadata = ()\<rparr>)]\<rparr>
   \<and> get_datasets
        \<lparr>db_version = ''0.8'', key_schema = [(''sensor'', ''''), (''date'', ''day'')],
         entries = [([''B'', ''2020''], \<lparr>locator = ''b.tif'', metadata = ()\<rparr>),
                    ([''C'', ''2020''], \<lparr>locator = ''c.tif'', metadata = ()\<rparr>),
                    ([''A'', ''2021''], \<lparr>locator = ''a21.tif'', metadata = ()\<rparr>),
                    ([''A'', ''2020''], \<lparr>locator = ''a20.tif'', metadata = ()\<rparr>)]\<rparr>
        (Some [(''sensor'', Multi [''A'', ''B'']), (''date'', Single ''2020'')]) 0 None
     = Inr [([''A'', ''2020''], ''a20.tif''), ([''B'', ''2020''], ''b.tif'')]"
proof -
  let ?c = "\<lparr>db_version = ''0.8'', key_schema = [(''sensor'', ''''), (''date'', ''day'')],
      entries = [([''B'', ''2020''], \<lparr>locator = ''b.tif'', metadata = ()\<rparr>),
                 ([''C'', ''2020''], \<lparr>locator = ''c.tif'', metadata = ()\<rparr>),
                 ([''A'', ''2021''], \<lparr>locator = ''a21.tif'', metadata = ()\<rparr>),
                 ([''A'', ''2020''], \<lparr>locator = ''a20.tif'', metadata = ()\<rparr>)]\<rparr>"
  let ?wh = "[(''sensor'', Multi [''A'', ''B'']), (''date'', Single ''2020'')]"
  have wf: "wf_catalog ?c"
    by (simp add: wf_catalog_def key_names_def)
  have known: "\<forall>cn \<in> set ?wh. fst cn \<in> set (key_names ?c)"
    by (simp add: key_names_def)
  have found: "enumerate_matching ?c ?wh
      = [([''A'', ''2020''], ''a20.tif''), ([''B'', ''2020''], ''b.tif'')]"
    by (simp add: enumerate_matching_def matches_def satisfies_def key_value_def key_names_def)
  from get_datasets_filtering [OF wf known, of 0]
  have "get_datasets ?c (Some ?wh) 0 None = Inr (enumerate_matching ?c ?wh)"
    by blast
  with found wf show ?thesis
    by (simp only:)
qed

end
